theory Spec2Isabelle
  imports Complex_Main "HOL-Library.Word" "HOL-Library.Multiset"
begin

unbundle bit_operations_syntax

section \<open>The distributed sampling dataset of \<^verbatim>\<open>src/text_data.py\<close>\<close>

text \<open>
  The class \<^verbatim>\<open>DistributedSamplingDataset\<close> computes, for one epoch, a global order
  of dataset positions, optionally stores it in a file that every process of the
  host maps read-only, and hands each (rank, loader worker) pair its slice.

  Modelling decisions.
  \<^item> Lengths, sizes, ranks and worker ids are counts and are natural numbers. The
    one subtraction of the constructor that goes below zero,
    \<^verbatim>\<open>len(dataset) - world_size\<close>, is computed over \<open>int\<close>.
  \<^item> \<^verbatim>\<open>math.ceil(a / b)\<close> is the ceiling of the exact quotient. Python divides in
    double precision, which gives the same value for every numerator below \<open>2^53\<close>;
    generation itself asserts a length below \<open>2^32 - 1\<close>.
  \<^item> A numpy array of dtype \<^verbatim>\<open>uint32\<close> is a list of 32-bit words.
  \<^item> \<^verbatim>\<open>rng.shuffle\<close> of a generator seeded with \<^verbatim>\<open>PCG64(seed)\<close> is a parameter
    \<open>rng_shuffle seed xs\<close>: a function of the seed and the array, as the library
    documents it. What it must satisfy (it permutes) is a hypothesis where needed.
  \<^item> Every \<^verbatim>\<open>raise\<close>, failed \<^verbatim>\<open>assert\<close> and library error is a value \<open>Inl e\<close>.
    The padding loop has no bound in the source, so generation returns an
    \<open>option\<close>: \<open>None\<close> is "does not return".
  \<^item> The file system is a map from paths to byte strings.
\<close>

subsection \<open>Data\<close>

type_synonym u32 = "32 word"
type_synonym byte = "8 word"
type_synonym path = string
type_synonym fs = "path \<rightharpoonup> byte list"

datatype error =
  ZeroDivisionError | AssertionError | ValueError | OSError | FileNotFoundError

text \<open>The arguments of \<^verbatim>\<open>__init__\<close>, with \<^verbatim>\<open>len(dataset)\<close> for the dataset and the
  rank, local rank and world size already resolved.\<close>

record config =
  dataset_len :: nat
  global_batch_size :: nat
  seed :: int
  epoch :: int
  start_index :: nat
  shuffle :: bool
  drop_last :: bool
  world_size :: nat
  rank :: nat
  local_rank :: nat
  work_dir :: "path option"

text \<open>The attributes of the constructed object.\<close>

record sampler = config +
  total_size :: nat
  device_batch_size :: nat
  global_indices_file :: "path option"

text \<open>The host: numpy's native byte order (\<^verbatim>\<open>np.uint32\<close> names no byte order),
  and what \<^verbatim>\<open>np.memmap(mode="w+", shape=(0,))\<close> does, which differs between numpy
  releases (an error, or the bytes it leaves in the file).\<close>

datatype endian = Little | Big

record host =
  byte_order :: endian
  memmap_empty :: "error + byte list"

subsection \<open>Python slices and numpy reshape\<close>

text \<open>\<^verbatim>\<open>xs[start:stop:step]\<close> for non-negative bounds and a positive step: the
  positions \<open>start, start + step, ...\<close> below \<open>min stop (len xs)\<close>.\<close>

definition slice_positions :: "nat \<Rightarrow> nat \<Rightarrow> nat \<Rightarrow> nat \<Rightarrow> nat list" where
  "slice_positions start stop step n =
     map (\<lambda>j. start + j * step) [0..<(min stop n - start + step - 1) div step]"

definition py_slice :: "nat \<Rightarrow> nat \<Rightarrow> nat \<Rightarrow> 'a list \<Rightarrow> 'a list" where
  "py_slice start stop step xs =
     map (\<lambda>p. xs ! p) (slice_positions start stop step (length xs))"

text \<open>\<^verbatim>\<open>a.reshape((-1, d))\<close> of an array whose length is a multiple of \<open>d\<close>.\<close>

definition reshape_rows :: "nat \<Rightarrow> 'a list \<Rightarrow> 'a list list" where
  "reshape_rows d xs = map (\<lambda>b. take d (drop (b * d) xs)) [0..<length xs div d]"

subsection \<open>The constructor\<close>




subsection \<open>Generating the global order\<close>

text \<open>\<^verbatim>\<open>np.iinfo(np.uint32).max\<close> and \<^verbatim>\<open>np.arange(n, dtype=np.uint32)\<close>.\<close>

definition uint32_max :: nat where
  "uint32_max = unat (- 1 :: u32)"

definition arange :: "nat \<Rightarrow> u32 list" where
  "arange n = map word_of_nat [0..<n]"

text \<open>The loop \<^verbatim>\<open>while padding_size > 0\<close> of \<^verbatim>\<open>_build_global_indices\<close>. With an
  empty \<open>indices\<close> and a positive \<open>padding_size\<close> it never ends.\<close>

partial_function (option) pad_loop ::
    "nat \<Rightarrow> 'a list \<Rightarrow> 'a list list \<Rightarrow> 'a list list option" where
  "pad_loop padding_size indices arrays_to_concatenate =
     (if padding_size > 0
      then (let array_to_concatenate = take (min padding_size (length indices)) indices
            in pad_loop (padding_size - length array_to_concatenate) indices
                 (arrays_to_concatenate @ [array_to_concatenate]))
      else Some arrays_to_concatenate)"

declare pad_loop.simps [code]

definition build_global_indices ::
    "(int \<Rightarrow> u32 list \<Rightarrow> u32 list) \<Rightarrow> 'a sampler_scheme \<Rightarrow> (error + u32 list) option" where
  "build_global_indices rng_shuffle s =
     (if \<not> dataset_len s < uint32_max then Some (Inl AssertionError)
      else
        let indices0 = arange (dataset_len s);
            indices = (if shuffle s then rng_shuffle (seed s + epoch s) indices0
                       else indices0)
        in if \<not> drop_last s then
             (case pad_loop (total_size s - length indices) indices [indices] of
                None \<Rightarrow> None
              | Some arrays \<Rightarrow>
                  (let padded = concat arrays
                   in if length padded = total_size s then Some (Inr padded)
                      else Some (Inl AssertionError)))
           else
             (let cut = take (total_size s) indices
              in if length cut = total_size s then Some (Inr cut)
                 else Some (Inl AssertionError)))"



subsection \<open>The index file\<close>

text \<open>The four bytes of a \<^verbatim>\<open>uint32\<close> in the host's byte order, and back.\<close>

definition u32_bytes :: "endian \<Rightarrow> u32 \<Rightarrow> byte list" where
  "u32_bytes e x =
     (let le = map (\<lambda>k. ucast (drop_bit (8 * k) x)) [0, 1, 2, 3]
      in case e of Little \<Rightarrow> le | Big \<Rightarrow> rev le)"

definition bytes_u32 :: "endian \<Rightarrow> byte list \<Rightarrow> u32" where
  "bytes_u32 e bs =
     (let le = (case e of Little \<Rightarrow> bs | Big \<Rightarrow> rev bs)
      in foldr (\<lambda>b acc. ucast b OR push_bit 8 acc) le 0)"

text \<open>\<^verbatim>\<open>np.memmap(file, dtype=np.uint32, mode="w+", shape=(n,))\<close>, the assignment
  of the array and \<^verbatim>\<open>flush\<close>: the bytes the file holds afterwards. The file has
  no header.\<close>

definition np_memmap_write :: "host \<Rightarrow> u32 list \<Rightarrow> error + byte list" where
  "np_memmap_write h xs =
     (if xs = [] then memmap_empty h
      else Inr (concat (map (u32_bytes (byte_order h)) xs)))"

text \<open>\<^verbatim>\<open>np.memmap(file, mode="r", dtype=np.uint32)\<close> with no shape: numpy takes the
  length from the file and refuses a size that is not a multiple of the item
  size; an empty file cannot be mapped.\<close>

definition np_memmap_read :: "host \<Rightarrow> fs \<Rightarrow> path \<Rightarrow> error + u32 list" where
  "np_memmap_read h files p =
     (case files p of
        None \<Rightarrow> Inl FileNotFoundError
      | Some bs \<Rightarrow>
          if length bs mod 4 \<noteq> 0 then Inl ValueError
          else if bs = [] then Inl ValueError
          else Inr (map (bytes_u32 (byte_order h)) (reshape_rows 4 bs)))"

definition indices_path :: "path \<Rightarrow> path" where
  "indices_path wd = wd @ ''/global_indices.npy''"

definition build_and_save_global_indices ::
    "(int \<Rightarrow> u32 list \<Rightarrow> u32 list) \<Rightarrow> host \<Rightarrow> sampler \<Rightarrow> fs
       \<Rightarrow> (error + sampler \<times> fs) option" where
  "build_and_save_global_indices rng_shuffle h s files =
     (case work_dir s of
        None \<Rightarrow> Some (Inl AssertionError)
      | Some wd \<Rightarrow>
          (let s' = s\<lparr>global_indices_file := Some (indices_path wd)\<rparr>
           in if local_rank s' = 0 then
                (case build_global_indices rng_shuffle s' of
                   None \<Rightarrow> None
                 | Some (Inl e) \<Rightarrow> Some (Inl e)
                 | Some (Inr global_indices) \<Rightarrow>
                     (case np_memmap_write h global_indices of
                        Inl e \<Rightarrow> Some (Inl e)
                      | Inr bytes \<Rightarrow>
                          Some (Inr (s', files(indices_path wd \<mapsto> bytes)))))
              else Some (Inr (s', files))))"


definition get_global_indices ::
    "(int \<Rightarrow> u32 list \<Rightarrow> u32 list) \<Rightarrow> host \<Rightarrow> sampler \<Rightarrow> fs
       \<Rightarrow> (error + u32 list) option" where
  "get_global_indices rng_shuffle h s files =
     (case global_indices_file s of
        Some p \<Rightarrow> Some (np_memmap_read h files p)
      | None \<Rightarrow> build_global_indices rng_shuffle s)"

definition reshuffle ::
    "(int \<Rightarrow> u32 list \<Rightarrow> u32 list) \<Rightarrow> host \<Rightarrow> sampler \<Rightarrow> int \<Rightarrow> fs
       \<Rightarrow> (error + sampler \<times> fs) option" where
  "reshuffle rng_shuffle h s e files =
     (let s' = s\<lparr>epoch := e\<rparr>
      in case work_dir s' of
           None \<Rightarrow> Some (Inr (s', files))
         | Some wd \<Rightarrow> build_and_save_global_indices rng_shuffle h s' files)"

subsection \<open>Iteration\<close>

text \<open>The slice of one loader worker: the body of \<^verbatim>\<open>if worker_info is not None\<close>.
  A device batch size of 0 raises at \<^verbatim>\<open>//\<close>, a worker count of 0 at the slice.\<close>

definition worker_slice :: "nat \<Rightarrow> nat \<Rightarrow> nat \<Rightarrow> 'a list \<Rightarrow> error + 'a list" where
  "worker_slice d worker_id num_workers indices =
     (if d = 0 then Inl ZeroDivisionError
      else if num_workers = 0 then Inl ValueError
      else
        let truncated_size = d * (length indices div d);
            left_overs =
              py_slice (truncated_size + worker_id) (length indices) num_workers indices;
            rows = reshape_rows d (take truncated_size indices);
            mine = concat (py_slice worker_id (length rows) num_workers rows)
        in Inr (mine @ left_overs))"

text \<open>\<^verbatim>\<open>__iter__\<close> after \<^verbatim>\<open>get_global_indices\<close>: the resume offset, the slice of the
  rank, the slice of the worker (\<open>worker_info\<close> is the worker's id and the
  number of workers).\<close>

definition partition_indices ::
    "'b sampler_scheme \<Rightarrow> (nat \<times> nat) option \<Rightarrow> 'a list \<Rightarrow> error + 'a list" where
  "partition_indices s worker_info global_indices =
     (if world_size s = 0 then Inl ValueError
      else
        let resumed = (if start_index s > 0 then drop (start_index s) global_indices
                       else global_indices);
            mine = py_slice (rank s) (total_size s) (world_size s) resumed
        in case worker_info of
             None \<Rightarrow> Inr mine
           | Some (worker_id, num_workers) \<Rightarrow>
               worker_slice (device_batch_size s) worker_id num_workers mine)"

text \<open>\<^verbatim>\<open>__iter__\<close>: the items of the dataset at the positions of the slice.\<close>

definition iter ::
    "(int \<Rightarrow> u32 list \<Rightarrow> u32 list) \<Rightarrow> host \<Rightarrow> (nat \<Rightarrow> 'r) \<Rightarrow> sampler
       \<Rightarrow> (nat \<times> nat) option \<Rightarrow> fs \<Rightarrow> (error + 'r list) option" where
  "iter rng_shuffle h get_dataset_item s worker_info files =
     (case get_global_indices rng_shuffle h s files of
        None \<Rightarrow> None
      | Some (Inl e) \<Rightarrow> Some (Inl e)
      | Some (Inr global_indices) \<Rightarrow>
          (case partition_indices s worker_info global_indices of
             Inl e \<Rightarrow> Some (Inl e)
           | Inr mine \<Rightarrow> Some (Inr (map (\<lambda>idx. get_dataset_item (unat idx)) mine))))"

subsection \<open>What the consumer does with the slices\<close>

text \<open>Round-robin over lists: the first element of each, then the second of each
  that has one, and so on. The loader takes one batch from each worker in turn,
  and the ranks' slices interleave the same way.\<close>

definition interleave :: "'a list list \<Rightarrow> 'a list" where
  "interleave xss = concat (transpose xss)"

text \<open>A worker's output cut into batches of \<open>d\<close> (the last one may be short).\<close>

definition batches :: "nat \<Rightarrow> 'a list \<Rightarrow> 'a list list" where
  "batches d xs = map (\<lambda>b. take d (drop (b * d) xs)) [0..<(length xs + d - 1) div d]"

text \<open>Regrouping the workers' outputs into batches of \<open>d\<close>, taken round-robin.\<close>

definition regroup :: "nat \<Rightarrow> 'a list list \<Rightarrow> 'a list" where
  "regroup d outputs = concat (interleave (map (batches d) outputs))"

text \<open>The share of worker \<open>i\<close> of \<open>w\<close> as the specification words it: the full
  batches \<open>b\<close> with \<open>b mod w = i\<close>, in order, then the positions \<open>p\<close> of the
  leftover tail with \<open>(p - truncated) mod w = i\<close>.\<close>

definition worker_share :: "nat \<Rightarrow> nat \<Rightarrow> nat \<Rightarrow> 'a list \<Rightarrow> 'a list" where
  "worker_share d w i xs =
     (let truncated = d * (length xs div d)
      in concat (map (\<lambda>b. map (\<lambda>j. xs ! (b * d + j)) [0..<d])
                   (filter (\<lambda>b. b mod w = i) [0..<length xs div d]))
         @ map (\<lambda>p. xs ! p)
             (filter (\<lambda>p. (p - truncated) mod w = i) [truncated..<length xs]))"

text \<open>A stand-in for the library's shuffle, for concrete runs: it rotates by
  the seed.\<close>

definition rotate_shuffle :: "int \<Rightarrow> u32 list \<Rightarrow> u32 list" where
  "rotate_shuffle k xs = rotate (nat k) xs"


text \<open>A constructed sampler for concrete runs: \<open>ts\<close> items, already a multiple
  of the \<open>w\<close> ranks, \<open>d\<close> items per rank and step, resuming at \<open>st\<close>.\<close>

definition example_sampler :: "nat \<Rightarrow> nat \<Rightarrow> nat \<Rightarrow> nat \<Rightarrow> sampler" where
  "example_sampler ts w d st =
     \<lparr>dataset_len = ts, global_batch_size = w * d, seed = 1, epoch = 2,
      start_index = st, shuffle = False, drop_last = False, world_size = w, rank = 0,
      local_rank = 0, work_dir = None, total_size = ts, device_batch_size = d,
      global_indices_file = None\<rparr>"

definition le_host :: host where
  "le_host = \<lparr>byte_order = Little, memmap_empty = Inl OSError\<rparr>"

section \<open>Properties\<close>


lemma round_up_bounds:
  fixes n w :: nat
  assumes "0 < w"
  shows "n \<le> ((n + w - 1) div w) * w" and "((n + w - 1) div w) * w < n + w"
proof -
  let ?k = "(n + w - 1) div w"
  have eq: "?k * w + (n + w - 1) mod w = n + w - 1"
    by (simp add: div_mult_mod_eq)
  have lt: "(n + w - 1) mod w < w" using assms by simp
  show "n \<le> ?k * w" using eq lt assms by linarith
  show "?k * w < n + w" using eq assms by linarith
qed







lemma unat_arange_nth:
  "i < n \<Longrightarrow> n \<le> 2 ^ 32 \<Longrightarrow> unat (arange n ! i) = i"
  by (simp add: arange_def unat_of_nat)






















subsection \<open>Claim C3: the total size when the tail is dropped\<close>




subsection \<open>Claim C5: what the generated array contains\<close>








subsection \<open>Claim C10: indices fit 32 bits\<close>




subsection \<open>Claim C6: generation is a function of six inputs\<close>




subsection \<open>Claim C2: fewer items than ranks, with the tail dropped\<close>







subsection \<open>Slices\<close>

lemma slice_count_less:
  fixes n a w :: nat
  assumes "0 < w"
  shows "j < (n - a + w - 1) div w \<longleftrightarrow> a + j * w < n"
proof -
  have "j < (n - a + w - 1) div w \<longleftrightarrow> Suc j * w \<le> n - a + w - 1"
    using assms by (simp add: less_eq_div_iff_mult_less_eq Suc_le_eq [symmetric] del: mult_Suc)
  also have "\<dots> \<longleftrightarrow> a + j * w < n" using assms by auto
  finally show ?thesis .
qed

lemma length_slice_positions [simp]:
  "length (slice_positions a b w n) = (min b n - a + w - 1) div w"
  by (simp add: slice_positions_def)

lemma nth_slice_positions:
  "j < length (slice_positions a b w n) \<Longrightarrow> slice_positions a b w n ! j = a + j * w"
  by (simp add: slice_positions_def)

lemma slice_positions_bound:
  assumes "0 < w" and "p \<in> set (slice_positions a b w n)"
  shows "p < n" and "p < b" and "a \<le> p"
proof -
  from assms(2) obtain j where j: "j < (min b n - a + w - 1) div w" "p = a + j * w"
    by (auto simp: slice_positions_def)
  then have "a + j * w < min b n" using slice_count_less [OF assms(1)] by blast
  then show "p < n" "p < b" "a \<le> p" using j(2) by simp_all
qed

lemma length_py_slice [simp]:
  "length (py_slice a b w xs) = (min b (length xs) - a + w - 1) div w"
  by (simp add: py_slice_def)

lemma nth_py_slice:
  "j < length (py_slice a b w xs) \<Longrightarrow> py_slice a b w xs ! j = xs ! (a + j * w)"
  by (simp add: py_slice_def nth_slice_positions)

text \<open>The positions of a strided slice are those of a residue class.\<close>

lemma slice_positions_filter:
  assumes "0 < w" and "i < w" and "n \<le> b"
  shows "slice_positions (a + i) b w n = filter (\<lambda>p. (p - a) mod w = i) [a..<n]"
proof (rule sorted_distinct_set_unique)
  have "sorted_wrt (<) (slice_positions (a + i) b w n)"
    using assms(1) by (simp add: sorted_wrt_iff_nth_less nth_slice_positions)
  then show "sorted (slice_positions (a + i) b w n)"
    and "distinct (slice_positions (a + i) b w n)"
    by (simp_all add: strict_sorted_iff)
  show "sorted (filter (\<lambda>p. (p - a) mod w = i) [a..<n])" by (simp add: sorted_filter [where f = id, simplified])
  show "distinct (filter (\<lambda>p. (p - a) mod w = i) [a..<n])" by simp
  show "set (slice_positions (a + i) b w n) = set (filter (\<lambda>p. (p - a) mod w = i) [a..<n])"
  proof (intro set_eqI iffI)
    fix p assume p: "p \<in> set (slice_positions (a + i) b w n)"
    then obtain j where j: "p = a + i + j * w" by (auto simp: slice_positions_def)
    have "p < n" by (rule slice_positions_bound(1) [OF assms(1) p])
    moreover have "(p - a) mod w = i" using j assms(2) by simp
    ultimately show "p \<in> set (filter (\<lambda>p. (p - a) mod w = i) [a..<n])" using j by simp
  next
    fix p assume "p \<in> set (filter (\<lambda>p. (p - a) mod w = i) [a..<n])"
    then have p: "a \<le> p" "p < n" "(p - a) mod w = i" by simp_all
    define j where "j = (p - a) div w"
    have "p - a = j * w + i" using p(3) div_mult_mod_eq [of "p - a" w] by (simp add: j_def)
    then have eq: "p = a + i + j * w" using p(1) by simp
    have "min b n = n" using assms(3) by simp
    then have "j < (min b n - (a + i) + w - 1) div w"
      using slice_count_less [OF assms(1), of j n "a + i"] eq p(2) by simp
    then show "p \<in> set (slice_positions (a + i) b w n)"
      using eq by (auto simp: slice_positions_def)
  qed
qed

lemma concat_batches_take:
  "concat (map (\<lambda>c. take w (drop (c * w) xs)) [0..<k]) = take (k * w) xs"
proof (induction k)
  case 0
  then show ?case by simp
next
  case (Suc k)
  have "take (k * w + w) xs = take (k * w) xs @ take w (drop (k * w) xs)"
    by (rule take_add)
  then show ?case using Suc by (simp add: add.commute)
qed

lemma concat_batches: "0 < d \<Longrightarrow> concat (batches d xs) = xs"
  using round_up_bounds(1) [of d "length xs"]
  by (simp add: batches_def concat_batches_take)

lemma foldr_max_le:
  "\<forall>xs\<in>set xss. length xs \<le> k \<Longrightarrow> foldr (\<lambda>xs. max (length xs)) xss 0 \<le> k"
  by (induction xss) auto

lemma foldr_max_eq:
  "\<forall>xs\<in>set xss. length xs \<le> k \<Longrightarrow> \<exists>xs\<in>set xss. length xs = k
     \<Longrightarrow> foldr (\<lambda>xs. max (length xs)) xss 0 = k"
proof (induction xss)
  case Nil
  then show ?case by simp
next
  case (Cons x xss)
  have le: "foldr (\<lambda>xs. max (length xs)) xss 0 \<le> k"
    using Cons.prems(1) by (intro foldr_max_le) simp
  show ?case
  proof (cases "length x = k")
    case True
    then show ?thesis using le by simp
  next
    case False
    then have "\<exists>xs\<in>set xss. length xs = k" using Cons.prems(2) by auto
    then have "foldr (\<lambda>xs. max (length xs)) xss 0 = k" using Cons by simp
    moreover have "length x \<le> k" using Cons.prems(1) by simp
    ultimately show ?thesis by simp
  qed
qed

lemma filter_less_upt: "filter (\<lambda>r. r < k) [0..<w] = [0..<min w k]"
proof (induction w)
  case 0
  then show ?case by simp
next
  case (Suc w)
  then show ?case by (cases "w < k") (simp_all add: min_def)
qed

text \<open>The strided slices of a list, side by side, have the batches of the list
  as their columns.\<close>

lemma transpose_slices:
  assumes "0 < w" and "length xs \<le> b"
  shows "transpose (map (\<lambda>r. py_slice r b w xs) [0..<w]) = batches w xs"
proof (rule nth_equalityI)
  let ?n = "length xs"
  let ?rows = "map (\<lambda>r. py_slice r b w xs) [0..<w]"
  have mn: "min b ?n = ?n" using assms(2) by simp
  have len: "length (py_slice r b w xs) = (?n - r + w - 1) div w" for r
    by (simp add: mn)
  have "\<forall>ys\<in>set ?rows. length ys \<le> (?n + w - 1) div w"
    by (auto simp: mn intro: div_le_mono)
  moreover have "\<exists>ys\<in>set ?rows. length ys = (?n + w - 1) div w"
    using assms(1) by (auto simp: mn intro!: bexI [of _ 0])
  ultimately have cols: "length (transpose ?rows) = (?n + w - 1) div w"
    by (simp only: length_transpose foldr_max_eq)
  then show "length (transpose ?rows) = length (batches w xs)"
    by (simp add: batches_def)
  fix c assume c: "c < length (transpose ?rows)"
  have "transpose ?rows ! c
        = map (\<lambda>r. py_slice r b w xs ! c)
            (filter (\<lambda>r. c < length (py_slice r b w xs)) [0..<w])"
    by (simp add: nth_transpose [OF c] filter_map comp_def)
  also have "filter (\<lambda>r. c < length (py_slice r b w xs)) [0..<w]
             = filter (\<lambda>r. r < ?n - c * w) [0..<w]"
  proof (rule filter_cong [OF refl])
    fix r
    show "(c < length (py_slice r b w xs)) = (r < ?n - c * w)"
      using slice_count_less [OF assms(1), of c ?n r] unfolding len by auto
  qed
  also have "\<dots> = [0..<min w (?n - c * w)]" by (rule filter_less_upt)
  also have "map (\<lambda>r. py_slice r b w xs ! c) [0..<min w (?n - c * w)]
             = take w (drop (c * w) xs)"
  proof (rule nth_equalityI)
    show "length (map (\<lambda>r. py_slice r b w xs ! c) [0..<min w (?n - c * w)])
          = length (take w (drop (c * w) xs))" by simp
    fix r assume "r < length (map (\<lambda>r. py_slice r b w xs ! c) [0..<min w (?n - c * w)])"
    then have r: "r < w" "r < ?n - c * w" by simp_all
    then have "c < length (py_slice r b w xs)"
      using slice_count_less [OF assms(1), of c ?n r] unfolding len by auto
    then have "py_slice r b w xs ! c = xs ! (r + c * w)" by (rule nth_py_slice)
    then show "map (\<lambda>r. py_slice r b w xs ! c) [0..<min w (?n - c * w)] ! r
               = take w (drop (c * w) xs) ! r"
      using r by (simp add: add.commute)
  qed
  finally show "transpose ?rows ! c = batches w xs ! c"
    using c cols by (simp add: batches_def)
qed

lemma interleave_slices:
  assumes "0 < w" and "length xs \<le> b"
  shows "interleave (map (\<lambda>r. py_slice r b w xs) [0..<w]) = xs"
  by (simp add: interleave_def transpose_slices [OF assms] concat_batches [OF assms(1)])


subsection \<open>Claim C4: the slices of the ranks\<close>

lemma rank_slice_length:
  fixes m w r :: nat
  assumes "r < w"
  shows "(m * w - r + w - 1) div w = m"
proof (rule div_nat_eqI)
  show "w * m \<le> m * w - r + w - 1"
  proof (cases m)
    case 0
    then show ?thesis by simp
  next
    case (Suc k)
    then have "r < m * w" using assms by (simp add: trans_less_add1)
    then show ?thesis using assms by (simp add: mult.commute)
  qed
  show "m * w - r + w - 1 < w * Suc m" using assms by (simp add: mult.commute)
qed

lemma partition_rank:
  assumes "0 < world_size s"
  shows "partition_indices (s\<lparr>rank := r\<rparr>) None gi
         = Inr (py_slice r (total_size s) (world_size s) (drop (start_index s) gi))"
  using assms by (simp add: partition_indices_def)

lemma rank_positions:
  assumes "0 < w" and "r < w" and "n \<le> b"
  shows "slice_positions r b w n = filter (\<lambda>p. p mod w = r) [0..<n]"
  using slice_positions_filter [OF assms(1,2,3), of 0] by simp

text \<open>
  C4. For a global index array whose length is \<open>total_size\<close>, a multiple of the
  world size, and no resume offset: the slice of rank \<open>r\<close> is the array at the
  positions \<open>r, r + world_size, ...\<close> below \<open>total_size\<close>; the position lists of
  two different ranks have no position in common and together they are all
  positions below \<open>total_size\<close>; each slice has exactly
  \<open>total_size div world_size\<close> entries; and interleaving the slices round-robin
  gives back the global array.
\<close>

theorem rank_slices_partition:
  assumes "0 < world_size s" and "length gi = total_size s"
    and "total_size s mod world_size s = 0" and "start_index s = 0"
  shows "\<exists>parts.
      map (\<lambda>r. partition_indices (s\<lparr>rank := r\<rparr>) None gi) [0..<world_size s]
        = map Inr parts
    \<and> length parts = world_size s
    \<and> (\<forall>r<world_size s.
          parts ! r = map (\<lambda>p. gi ! p)
                        (slice_positions r (total_size s) (world_size s) (length gi))
          \<and> length (parts ! r) = total_size s div world_size s)
    \<and> (\<forall>r<world_size s. \<forall>r'<world_size s. r \<noteq> r' \<longrightarrow>
          set (slice_positions r (total_size s) (world_size s) (length gi))
            \<inter> set (slice_positions r' (total_size s) (world_size s) (length gi)) = {})
    \<and> (\<Union>r<world_size s.
          set (slice_positions r (total_size s) (world_size s) (length gi)))
        = {0..<total_size s}
    \<and> interleave parts = gi"
proof -
  let ?w = "world_size s" and ?t = "total_size s"
  define parts where "parts = map (\<lambda>r. py_slice r ?t ?w gi) [0..<?w]"
  have a: "map (\<lambda>r. partition_indices (s\<lparr>rank := r\<rparr>) None gi) [0..<?w] = map Inr parts"
    using assms(4) by (simp add: parts_def partition_rank [OF assms(1)])
  have b: "length parts = ?w" by (simp add: parts_def)
  define m where "m = ?t div ?w"
  have m: "?t = m * ?w" using assms(3) by (simp add: m_def mod_eq_0_iff_dvd)
  have c: "parts ! r = map (\<lambda>p. gi ! p) (slice_positions r ?t ?w (length gi))
          \<and> length (parts ! r) = ?t div ?w" if "r < ?w" for r
  proof -
    have "parts ! r = py_slice r ?t ?w gi" using that by (simp add: parts_def)
    moreover have "length (py_slice r ?t ?w gi) = m"
      using rank_slice_length [OF that, of m] assms(2) m by simp
    moreover have "?t div ?w = m" using m assms(1) by simp
    ultimately show ?thesis by (simp add: py_slice_def)
  qed
  have pos: "slice_positions r ?t ?w (length gi) = filter (\<lambda>p. p mod ?w = r) [0..<?t]"
    if "r < ?w" for r
    using rank_positions [OF assms(1) that, of "length gi" ?t] assms(2) by simp
  have d: "set (slice_positions r ?t ?w (length gi))
            \<inter> set (slice_positions r' ?t ?w (length gi)) = {}"
    if "r < ?w" "r' < ?w" "r \<noteq> r'" for r r'
    using that by (auto simp: pos)
  have e: "(\<Union>r<?w. set (slice_positions r ?t ?w (length gi))) = {0..<?t}"
  proof (intro set_eqI iffI)
    fix p assume "p \<in> (\<Union>r<?w. set (slice_positions r ?t ?w (length gi)))"
    then show "p \<in> {0..<?t}" by (auto simp: pos)
  next
    fix p assume p: "p \<in> {0..<?t}"
    have "p mod ?w < ?w" using assms(1) by simp
    moreover have "p \<in> set (slice_positions (p mod ?w) ?t ?w (length gi))"
      using p assms(1) by (simp add: pos)
    ultimately show "p \<in> (\<Union>r<?w. set (slice_positions r ?t ?w (length gi)))" by blast
  qed
  have f: "interleave parts = gi"
    unfolding parts_def using assms(1,2) by (intro interleave_slices) simp_all
  show ?thesis using a b c d e f by blast
qed

lemmas run_partition =
  partition_indices_def worker_slice_def py_slice_def slice_positions_def
  reshape_rows_def example_sampler_def interleave_def batches_def regroup_def
  Let_def upt_rec

theorem rank_slices_partition_witness:
  "map (\<lambda>r. partition_indices ((example_sampler 6 2 1 0)\<lparr>rank := r\<rparr>) None
               [10, 11, 12, 13, 14, 15 :: nat]) [0..<2]
     = [Inr [10, 12, 14], Inr [11, 13, 15]]
   \<and> interleave [[10, 12, 14], [11, 13, 15 :: nat]] = [10, 11, 12, 13, 14, 15]"
proof -
  have a: "0 < world_size (example_sampler 6 2 1 0)"
    "length [10, 11, 12, 13, 14, 15 :: nat] = total_size (example_sampler 6 2 1 0)"
    "total_size (example_sampler 6 2 1 0) mod world_size (example_sampler 6 2 1 0) = 0"
    "start_index (example_sampler 6 2 1 0) = 0"
    by (simp_all add: example_sampler_def)
  have e: "map (\<lambda>r. partition_indices ((example_sampler 6 2 1 0)\<lparr>rank := r\<rparr>) None
               [10, 11, 12, 13, 14, 15 :: nat]) [0..<2]
     = [Inr [10, 12, 14], Inr [11, 13, 15]]"
    by (simp add: run_partition)
  have i: "interleave [[10, 12, 14], [11, 13, 15 :: nat]] = [10, 11, 12, 13, 14, 15]"
    by (simp add: interleave_def)
  from rank_slices_partition [OF a] e i show ?thesis by simp
qed


subsection \<open>Claim C1: the slices of the loader workers\<close>

lemma length_reshape_rows [simp]: "length (reshape_rows d xs) = length xs div d"
  by (simp add: reshape_rows_def)

lemma nth_reshape_rows:
  "b < length xs div d \<Longrightarrow> reshape_rows d xs ! b = take d (drop (b * d) xs)"
  by (simp add: reshape_rows_def)

lemma full_batch_bound:
  fixes b d n :: nat
  assumes "b < n div d"
  shows "b * d + d \<le> d * (n div d)"
proof -
  have "Suc b \<le> n div d" using assms by simp
  then have "Suc b * d \<le> (n div d) * d" by (rule mult_le_mono1)
  then show ?thesis by (simp add: mult.commute)
qed

lemma row_of_truncated:
  assumes "b < length xs div d"
  shows "take d (drop (b * d) (take (d * (length xs div d)) xs))
         = map (\<lambda>j. xs ! (b * d + j)) [0..<d]"
proof (rule nth_equalityI)
  have le: "d * (length xs div d) \<le> length xs" by simp
  have fb: "b * d + d \<le> d * (length xs div d)" by (rule full_batch_bound [OF assms])
  show "length (take d (drop (b * d) (take (d * (length xs div d)) xs)))
        = length (map (\<lambda>j. xs ! (b * d + j)) [0..<d])"
    using le fb by simp
  fix j assume "j < length (take d (drop (b * d) (take (d * (length xs div d)) xs)))"
  then have j: "j < d" by simp
  then have "b * d + j < d * (length xs div d)" using fb by simp
  then have "drop (b * d) (take (d * (length xs div d)) xs) ! j = xs ! (b * d + j)"
    using le assms by (subst nth_drop) simp_all
  then show "take d (drop (b * d) (take (d * (length xs div d)) xs)) ! j
             = map (\<lambda>j. xs ! (b * d + j)) [0..<d] ! j"
    using j by simp
qed

text \<open>The worker's share in the words of the specification is what the two
  slices and the reshape of the code compute.\<close>

lemma worker_share_code:
  assumes "0 < d" and "0 < w" and "i < w"
  shows "worker_share d w i xs
         = concat (py_slice i (length xs div d) w
                     (reshape_rows d (take (d * (length xs div d)) xs)))
           @ py_slice (d * (length xs div d) + i) (length xs) w xs"
proof -
  let ?nb = "length xs div d"
  let ?T = "d * ?nb"
  let ?rows = "reshape_rows d (take ?T xs)"
  have lt: "length (take ?T xs) = ?T" by simp
  have lr: "length ?rows = ?nb" using assms(1) by (simp add: lt del: length_take)
  have "py_slice i ?nb w ?rows = map (\<lambda>b. ?rows ! b) (filter (\<lambda>b. b mod w = i) [0..<?nb])"
    using rank_positions [OF assms(2,3), of ?nb ?nb] by (simp only: py_slice_def lr)
  also have "\<dots> = map (\<lambda>b. map (\<lambda>j. xs ! (b * d + j)) [0..<d])
                     (filter (\<lambda>b. b mod w = i) [0..<?nb])"
  proof (rule map_cong [OF refl])
    fix b assume "b \<in> set (filter (\<lambda>b. b mod w = i) [0..<?nb])"
    then have b: "b < ?nb" by simp
    then have "b < length (take ?T xs) div d" using assms(1) by (simp add: lt del: length_take)
    then have "?rows ! b = take d (drop (b * d) (take ?T xs))" by (rule nth_reshape_rows)
    then show "?rows ! b = map (\<lambda>j. xs ! (b * d + j)) [0..<d]"
      using row_of_truncated [OF b] by simp
  qed
  finally have mine: "py_slice i ?nb w ?rows
      = map (\<lambda>b. map (\<lambda>j. xs ! (b * d + j)) [0..<d]) (filter (\<lambda>b. b mod w = i) [0..<?nb])" .
  have rest: "py_slice (?T + i) (length xs) w xs
      = map (\<lambda>p. xs ! p) (filter (\<lambda>p. (p - ?T) mod w = i) [?T..<length xs])"
    using slice_positions_filter [OF assms(2,3), of "length xs" "length xs" ?T]
    by (simp add: py_slice_def)
  show ?thesis
    unfolding worker_share_def Let_def mine rest ..
qed


lemma length_concat_rows:
  "\<forall>r\<in>set rs. length r = d \<Longrightarrow> length (concat rs) = d * length rs"
  by (induction rs) simp_all

lemma nth_batch_concat:
  "\<forall>r\<in>set rs. length r = d \<Longrightarrow> b < length rs
     \<Longrightarrow> take d (drop (b * d) (concat rs)) = rs ! b"
proof (induction rs arbitrary: b)
  case Nil
  then show ?case by simp
next
  case (Cons r rs)
  show ?case
  proof (cases b)
    case 0
    then show ?thesis using Cons.prems by simp
  next
    case (Suc k)
    then have "take d (drop (k * d) (concat rs)) = rs ! k"
      using Cons by simp
    then show ?thesis using Suc Cons.prems(1) by simp
  qed
qed

lemma batches_concat:
  assumes "0 < d" and "\<forall>r\<in>set rs. length r = d"
  shows "batches d (concat rs) = rs"
proof (rule nth_equalityI)
  have "(d * length rs + d - 1) div d = length rs"
    using rank_slice_length [of 0 d "length rs"] assms(1) by (simp add: mult.commute)
  then show len: "length (batches d (concat rs)) = length rs"
    by (simp add: batches_def length_concat_rows [OF assms(2)])
  fix b assume "b < length (batches d (concat rs))"
  then have b: "b < length rs" using len by simp
  then have "b < (length (concat rs) + d - 1) div d" using len by (simp add: batches_def)
  then have "batches d (concat rs) ! b = take d (drop (b * d) (concat rs))"
    by (simp add: batches_def)
  then show "batches d (concat rs) ! b = rs ! b"
    using nth_batch_concat [OF assms(2) b] by simp
qed


lemma regroup_shares:
  assumes "0 < d" and "0 < w" and "length xs mod d = 0"
  shows "regroup d (map (\<lambda>i. worker_share d w i xs) [0..<w]) = xs"
proof -
  define nb where "nb = length xs div d"
  define rows where "rows = reshape_rows d xs"
  have T: "d * nb = length xs" using assms(3) by (simp add: nb_def mod_eq_0_iff_dvd)
  have lrows: "length rows = nb" by (simp add: rows_def nb_def)
  have rows_len: "\<forall>r\<in>set rows. length r = d"
  proof
    fix r assume "r \<in> set rows"
    then obtain b where b: "b < length xs div d" "r = take d (drop (b * d) xs)"
      by (auto simp: rows_def reshape_rows_def)
    have "b * d + d \<le> d * (length xs div d)" by (rule full_batch_bound [OF b(1)])
    then have "b * d + d \<le> length xs" using T by (simp add: nb_def)
    then show "length r = d" using b(2) by simp
  qed
  have share: "batches d (worker_share d w i xs) = py_slice i nb w rows" if "i < w" for i
  proof -
    have "(w - 1) div w = 0" using assms(2) by simp
    then have tail: "py_slice (length xs + i) (length xs) w xs = []"
      by (simp add: py_slice_def slice_positions_def)
    have "worker_share d w i xs
          = concat (py_slice i nb w (reshape_rows d (take (d * nb) xs)))
            @ py_slice (d * nb + i) (length xs) w xs"
      unfolding nb_def by (rule worker_share_code [OF assms(1,2) that])
    also have "\<dots> = concat (py_slice i nb w rows)"
      unfolding T by (simp add: tail rows_def)
    finally have ws: "worker_share d w i xs = concat (py_slice i nb w rows)" .
    have "\<forall>r\<in>set (py_slice i nb w rows). length r = d"
    proof
      fix r assume "r \<in> set (py_slice i nb w rows)"
      then obtain p where p: "p \<in> set (slice_positions i nb w (length rows))" "r = rows ! p"
        by (auto simp: py_slice_def)
      have "p < length rows" by (rule slice_positions_bound(1) [OF assms(2) p(1)])
      then have "r \<in> set rows" using p(2) by simp
      then show "length r = d" using rows_len by blast
    qed
    then have "batches d (concat (py_slice i nb w rows)) = py_slice i nb w rows"
      by (rule batches_concat [OF assms(1)])
    then show ?thesis unfolding ws .
  qed
  have "map (batches d) (map (\<lambda>i. worker_share d w i xs) [0..<w])
        = map (\<lambda>i. py_slice i nb w rows) [0..<w]"
    by (simp add: share cong: map_cong)
  then have "regroup d (map (\<lambda>i. worker_share d w i xs) [0..<w])
        = concat (interleave (map (\<lambda>i. py_slice i nb w rows) [0..<w]))"
    by (simp only: regroup_def)
  also have "interleave (map (\<lambda>i. py_slice i nb w rows) [0..<w]) = rows"
    by (rule interleave_slices [OF assms(2)]) (simp add: lrows)
  also have "concat rows = take (nb * d) xs"
    unfolding rows_def reshape_rows_def nb_def by (rule concat_batches_take)
  also have "\<dots> = xs" using T by (simp add: mult.commute)
  finally show ?thesis .
qed


text \<open>
  C1 as stated fails when there is a leftover tail: with 11 indices, batches
  of 4 and 2 workers, worker 0 yields \<open>0, 1, 2, 3, 8, 10\<close> and worker 1 yields
  \<open>4, 5, 6, 7, 9\<close>; regrouped into batches of 4 taken round-robin they give
  \<open>0, ..., 7, 8, 10, 9\<close>, which is not the order of the rank.
\<close>

theorem worker_regroup_counterexample:
  "worker_slice 4 0 2 [0, 1, 2, 3, 4, 5, 6, 7, 8, 9, 10 :: nat] = Inr [0, 1, 2, 3, 8, 10]
   \<and> worker_slice 4 1 2 [0, 1, 2, 3, 4, 5, 6, 7, 8, 9, 10 :: nat] = Inr [4, 5, 6, 7, 9]
   \<and> regroup 4 [[0, 1, 2, 3, 8, 10], [4, 5, 6, 7, 9 :: nat]]
       = [0, 1, 2, 3, 4, 5, 6, 7, 8, 10, 9]
   \<and> regroup 4 [[0, 1, 2, 3, 8, 10], [4, 5, 6, 7, 9 :: nat]]
       \<noteq> [0, 1, 2, 3, 4, 5, 6, 7, 8, 9, 10]"
  by (simp add: run_partition)


text \<open>
  C1, amended. For every slice of a rank, device batch size \<open>d > 0\<close> and worker
  count \<open>w > 0\<close>, worker \<open>i\<close> yields the full batches \<open>b\<close> with \<open>b mod w = i\<close>, each in
  its own order and in increasing \<open>b\<close>, followed by the leftover positions
  \<open>truncated + i, truncated + i + w, ...\<close>, where
  \<open>truncated = d * (len div d)\<close>. When the length of the slice is a multiple of \<open>d\<close>
  (there is no leftover tail), regrouping the workers' outputs into batches of
  \<open>d\<close> taken round-robin gives back the slice of the rank.
\<close>

theorem worker_slices:
  assumes "0 < d" and "0 < w"
  shows "(\<forall>i<w. worker_slice d i w xs = Inr (worker_share d w i xs))
     \<and> (length xs mod d = 0 \<longrightarrow>
          regroup d (map (\<lambda>i. worker_share d w i xs) [0..<w]) = xs)"
proof -
  have "worker_slice d i w xs = Inr (worker_share d w i xs)" if "i < w" for i
    using assms by (simp add: worker_slice_def Let_def worker_share_code [OF assms that])
  moreover have "regroup d (map (\<lambda>i. worker_share d w i xs) [0..<w]) = xs"
    if "length xs mod d = 0"
    using that by (rule regroup_shares [OF assms])
  ultimately show ?thesis by blast
qed


theorem worker_slices_witness:
  "worker_slice 2 0 3 [0, 1, 2, 3, 4, 5, 6, 7 :: nat] = Inr [0, 1, 6, 7]
   \<and> worker_slice 2 1 3 [0, 1, 2, 3, 4, 5, 6, 7 :: nat] = Inr [2, 3]
   \<and> worker_slice 2 2 3 [0, 1, 2, 3, 4, 5, 6, 7 :: nat] = Inr [4, 5]
   \<and> regroup 2 [[0, 1, 6, 7], [2, 3], [4, 5 :: nat]] = [0, 1, 2, 3, 4, 5, 6, 7]"
proof -
  have s: "map (\<lambda>i. worker_share 2 3 i [0, 1, 2, 3, 4, 5, 6, 7 :: nat]) [0..<3]
           = [[0, 1, 6, 7], [2, 3], [4, 5]]"
    by (simp add: worker_share_def upt_rec)
  have "worker_share 2 3 0 [0, 1, 2, 3, 4, 5, 6, 7 :: nat] = [0, 1, 6, 7]"
    "worker_share 2 3 1 [0, 1, 2, 3, 4, 5, 6, 7 :: nat] = [2, 3]"
    "worker_share 2 3 2 [0, 1, 2, 3, 4, 5, 6, 7 :: nat] = [4, 5]"
    by (simp_all add: worker_share_def upt_rec)
  with worker_slices [of 2 3 "[0, 1, 2, 3, 4, 5, 6, 7 :: nat]"] s
  show ?thesis by simp
qed


subsection \<open>Claim C7: resuming at a batch boundary\<close>

lemma worker_slice_share:
  assumes "0 < d" and "0 < w" and "i < w"
  shows "worker_slice d i w xs = Inr (worker_share d w i xs)"
  using assms(1,2) by (simp add: worker_slice_def Let_def worker_share_code [OF assms])

lemma partition_worker:
  assumes "0 < world_size s"
  shows "partition_indices (s\<lparr>rank := r\<rparr>) (Some (i, nw)) gi
         = worker_slice (device_batch_size s) i nw
             (py_slice r (total_size s) (world_size s) (drop (start_index s) gi))"
  using assms by (simp add: partition_indices_def)

text \<open>
  C7. For a global index sequence of \<open>n\<close> global batches, a sampler whose total
  size is its length and a resume offset of \<open>k \<le> n\<close> global batches: the slices
  of the ranks, interleaved round-robin, are exactly the sequence without its
  first \<open>start_index\<close> entries, that is the last \<open>n - k\<close> global batches in
  their order, and nothing of the first \<open>k\<close>; with offset 0 they are the whole
  sequence. Each rank gets \<open>n - k\<close> device batches, and with loader workers the
  workers' outputs of a rank, regrouped into device batches round-robin, are the
  slice of that rank.
\<close>

theorem resume_yields_tail:
  assumes "0 < world_size s" and "global_batch_size s mod world_size s = 0"
    and "device_batch_size s = global_batch_size s div world_size s"
    and "length gi = n * global_batch_size s" and "total_size s = length gi"
    and "start_index s = k * global_batch_size s" and "k \<le> n"
  shows "\<exists>parts.
      map (\<lambda>r. partition_indices (s\<lparr>rank := r\<rparr>) None gi) [0..<world_size s]
        = map Inr parts
    \<and> length parts = world_size s
    \<and> interleave parts = drop (k * global_batch_size s) gi
    \<and> (k = 0 \<longrightarrow> interleave parts = gi)
    \<and> (\<forall>r<world_size s. length (parts ! r) = (n - k) * device_batch_size s)
    \<and> (0 < device_batch_size s \<longrightarrow> 0 < nw \<longrightarrow>
         (\<forall>r<world_size s. \<exists>outs.
            map (\<lambda>i. partition_indices (s\<lparr>rank := r\<rparr>) (Some (i, nw)) gi) [0..<nw]
              = map Inr outs
            \<and> regroup (device_batch_size s) outs = parts ! r))"
proof -
  let ?w = "world_size s" and ?d = "device_batch_size s" and ?g = "global_batch_size s"
  let ?t = "total_size s"
  define rest where "rest = drop (start_index s) gi"
  define parts where "parts = map (\<lambda>r. py_slice r ?t ?w rest) [0..<?w]"
  have g: "?g = ?d * ?w" using assms(2,3) by (simp add: mod_eq_0_iff_dvd)
  have lrest: "length rest = ((n - k) * ?d) * ?w"
    using assms(4,6) by (simp add: rest_def g diff_mult_distrib mult.assoc)
  have le: "length rest \<le> ?t" using assms(5) by (simp add: rest_def)
  have a: "map (\<lambda>r. partition_indices (s\<lparr>rank := r\<rparr>) None gi) [0..<?w] = map Inr parts"
    by (simp add: parts_def rest_def partition_rank [OF assms(1)])
  have b: "length parts = ?w" by (simp add: parts_def)
  have c: "interleave parts = drop (k * ?g) gi"
    unfolding parts_def using interleave_slices [OF assms(1) le] assms(6)
    by (simp add: rest_def)
  have c0: "interleave parts = gi" if "k = 0" using c that by simp
  have part: "parts ! r = py_slice r ?t ?w rest" if "r < ?w" for r
    using that by (simp add: parts_def)
  have d: "length (parts ! r) = (n - k) * ?d" if "r < ?w" for r
  proof -
    have "min ?t (length rest) = ((n - k) * ?d) * ?w" using le lrest by simp
    then have "length (py_slice r ?t ?w rest) = (((n - k) * ?d) * ?w - r + ?w - 1) div ?w"
      by (simp only: length_py_slice)
    then show ?thesis using rank_slice_length [OF that, of "(n - k) * ?d"] part [OF that]
      by simp
  qed
  have e: "\<exists>outs.
            map (\<lambda>i. partition_indices (s\<lparr>rank := r\<rparr>) (Some (i, nw)) gi) [0..<nw]
              = map Inr outs
            \<and> regroup ?d outs = parts ! r"
    if "0 < ?d" "0 < nw" "r < ?w" for r
  proof -
    define outs where "outs = map (\<lambda>i. worker_share ?d nw i (parts ! r)) [0..<nw]"
    have "partition_indices (s\<lparr>rank := r\<rparr>) (Some (i, nw)) gi
          = Inr (worker_share ?d nw i (parts ! r))" if "i < nw" for i
      using partition_worker [OF assms(1), of r i nw gi]
        worker_slice_share [OF \<open>0 < ?d\<close> \<open>0 < nw\<close> that, of "parts ! r"]
        part [OF \<open>r < ?w\<close>]
      by (simp add: rest_def)
    then have "map (\<lambda>i. partition_indices (s\<lparr>rank := r\<rparr>) (Some (i, nw)) gi) [0..<nw]
               = map Inr outs"
      by (simp add: outs_def cong: map_cong)
    moreover have "length (parts ! r) mod ?d = 0" using d [OF \<open>r < ?w\<close>] by simp
    then have "regroup ?d outs = parts ! r"
      unfolding outs_def by (rule regroup_shares [OF \<open>0 < ?d\<close> \<open>0 < nw\<close>])
    ultimately show ?thesis by blast
  qed
  show ?thesis
    by (intro exI [of _ parts] conjI impI allI a b c c0 d e)
qed


theorem resume_yields_tail_witness:
  "map (\<lambda>r. partition_indices ((example_sampler 12 2 2 4)\<lparr>rank := r\<rparr>) None
               [0, 1, 2, 3, 4, 5, 6, 7, 8, 9, 10, 11 :: nat]) [0..<2]
     = [Inr [4, 6, 8, 10], Inr [5, 7, 9, 11]]
   \<and> interleave [[4, 6, 8, 10], [5, 7, 9, 11 :: nat]] = [4, 5, 6, 7, 8, 9, 10, 11]
   \<and> map (\<lambda>i. partition_indices ((example_sampler 12 2 2 4)\<lparr>rank := 0\<rparr>) (Some (i, 2))
               [0, 1, 2, 3, 4, 5, 6, 7, 8, 9, 10, 11 :: nat]) [0..<2]
     = [Inr [4, 6], Inr [8, 10]]
   \<and> regroup 2 [[4, 6], [8, 10 :: nat]] = [4, 6, 8, 10]"
proof -
  let ?s = "example_sampler 12 2 2 4"
  let ?gi = "[0, 1, 2, 3, 4, 5, 6, 7, 8, 9, 10, 11 :: nat]"
  have a: "0 < world_size ?s" "global_batch_size ?s mod world_size ?s = 0"
    "device_batch_size ?s = global_batch_size ?s div world_size ?s"
    "length ?gi = 3 * global_batch_size ?s" "total_size ?s = length ?gi"
    "start_index ?s = 1 * global_batch_size ?s" "(1 :: nat) \<le> 3"
    by (simp_all add: example_sampler_def)
  have r0: "partition_indices (?s\<lparr>rank := 0\<rparr>) None ?gi = Inr [4, 6, 8, 10]"
    by (simp add: run_partition)
  have r1: "partition_indices (?s\<lparr>rank := 1\<rparr>) None ?gi = Inr [5, 7, 9, 11]"
    by (simp add: run_partition)
  have two: "[0..<2] = [0, 1 :: nat]" by (simp add: upt_rec)
  have e1: "map (\<lambda>r. partition_indices (?s\<lparr>rank := r\<rparr>) None ?gi) [0..<2]
     = [Inr [4, 6, 8, 10], Inr [5, 7, 9, 11]]"
    unfolding two using r0 r1 by simp
  have e2: "interleave [[4, 6, 8, 10], [5, 7, 9, 11 :: nat]] = [4, 5, 6, 7, 8, 9, 10, 11]"
    by (simp add: interleave_def)
  have mine: "py_slice 0 (total_size ?s) (world_size ?s) (drop (start_index ?s) ?gi)
              = [4, 6, 8, 10]"
    by (simp add: run_partition)
  have d: "device_batch_size ?s = 2" "0 < world_size ?s"
    by (simp_all add: example_sampler_def)
  have "worker_slice 2 0 2 [4, 6, 8, 10 :: nat] = Inr [4, 6]"
    by (simp add: run_partition)
  then have w0: "partition_indices (?s\<lparr>rank := 0\<rparr>) (Some (0, 2)) ?gi = Inr [4, 6]"
    by (simp only: partition_worker [OF d(2)] mine d(1))
  have "worker_slice 2 1 2 [4, 6, 8, 10 :: nat] = Inr [8, 10]"
    by (simp add: run_partition)
  then have w1: "partition_indices (?s\<lparr>rank := 0\<rparr>) (Some (1, 2)) ?gi = Inr [8, 10]"
    by (simp only: partition_worker [OF d(2)] mine d(1))
  have e3: "map (\<lambda>i. partition_indices (?s\<lparr>rank := 0\<rparr>) (Some (i, 2)) ?gi) [0..<2]
     = [Inr [4, 6], Inr [8, 10]]"
    unfolding two using w0 w1 by simp
  have e4: "regroup 2 [[4, 6], [8, 10 :: nat]] = [4, 6, 8, 10]"
    by (simp add: run_partition)
  from resume_yields_tail [OF a, of 2] e1 e2 e3 e4 show ?thesis by simp
qed


subsection \<open>The bytes of the index file\<close>

lemma length_u32_bytes [simp]: "length (u32_bytes e x) = 4"
  by (cases e) (simp_all add: u32_bytes_def)












subsection \<open>Claim C9: the persisted index file\<close>





subsection \<open>Claim C8: loading the index file\<close>

text \<open>
  C8 as stated fails in its second half: a sampler that expects 4 indices and
  finds a file of 8 bytes gets the two indices of the file, with no error.
\<close>

theorem stale_file_counterexample:
  "total_size ((example_sampler 4 1 1 0)\<lparr>global_indices_file := Some ''w/global_indices.npy''\<rparr>) = 4
   \<and> get_global_indices rotate_shuffle le_host
        ((example_sampler 4 1 1 0)\<lparr>global_indices_file := Some ''w/global_indices.npy''\<rparr>)
        [''w/global_indices.npy'' \<mapsto> [1, 0, 0, 0, 2, 0, 0, 0]]
      = Some (Inr [1, 2])"
  by (simp add: get_global_indices_def np_memmap_read_def example_sampler_def le_host_def
      reshape_rows_def bytes_u32_def upt_rec)

text \<open>
  C8, amended. With an index file configured, loading fails when the file is
  missing, and fails with numpy's \<open>ValueError\<close> when its byte length is not a
  multiple of 4 or it is empty; for a file of a positive multiple of 4 bytes it
  returns the \<open>length div 4\<close> entries the file holds, whatever \<open>total_size\<close> the
  sampler expects. The code compares nothing with \<open>total_size\<close>.
\<close>

theorem load_index_file:
  assumes "global_indices_file s = Some p"
  shows "(files p = None \<longrightarrow>
            get_global_indices rng h s files = Some (Inl FileNotFoundError))
     \<and> (\<forall>bs. files p = Some bs \<longrightarrow>
          (length bs mod 4 \<noteq> 0 \<or> bs = [] \<longrightarrow>
             get_global_indices rng h s files = Some (Inl ValueError))
        \<and> (length bs mod 4 = 0 \<and> bs \<noteq> [] \<longrightarrow>
             (\<exists>xs. get_global_indices rng h s files = Some (Inr xs)
                \<and> length xs = length bs div 4
                \<and> xs = map (bytes_u32 (byte_order h)) (reshape_rows 4 bs))))"
  using assms by (auto simp: get_global_indices_def np_memmap_read_def)

theorem load_index_file_witness:
  "get_global_indices rotate_shuffle le_host
        ((example_sampler 4 1 1 0)\<lparr>global_indices_file := Some ''w/global_indices.npy''\<rparr>)
        [''w/global_indices.npy'' \<mapsto> [1, 0, 0, 0, 2, 0, 0]]
      = Some (Inl ValueError)
   \<and> get_global_indices rotate_shuffle le_host
        ((example_sampler 4 1 1 0)\<lparr>global_indices_file := Some ''w/global_indices.npy''\<rparr>)
        Map.empty
      = Some (Inl FileNotFoundError)
   \<and> get_global_indices rotate_shuffle le_host
        ((example_sampler 4 1 1 0)\<lparr>global_indices_file := Some ''w/global_indices.npy''\<rparr>)
        [''w/global_indices.npy'' \<mapsto> [3, 0, 0, 0]]
      = Some (Inr [3])"
proof -
  let ?s = "(example_sampler 4 1 1 0)\<lparr>global_indices_file := Some ''w/global_indices.npy''\<rparr>"
  have a: "global_indices_file ?s = Some ''w/global_indices.npy''" by simp
  from load_index_file [OF a, of "[''w/global_indices.npy'' \<mapsto> [1, 0, 0, 0, 2, 0, 0]]"
      rotate_shuffle le_host]
    load_index_file [OF a, of Map.empty rotate_shuffle le_host]
    load_index_file [OF a, of "[''w/global_indices.npy'' \<mapsto> [3, 0, 0, 0]]"
      rotate_shuffle le_host]
  show ?thesis by (simp add: le_host_def reshape_rows_def bytes_u32_def upt_rec)
qed

end
